theory Spec2Isabelle
  imports Complex_Main "HOL-Library.Sublist" "HOL-Library.Char_ord" "HOL-Library.List_Lexorder"
    "HOL-Library.Multiset"
begin

section \<open>Strings\<close>

text \<open>
  A JavaScript string is a sequence of UTF-16 code units. The development covers the
  strings all of whose code units are below 256 (ASCII and the Latin-1 supplement) and
  writes them as \<open>string\<close>, one \<open>char\<close> per code unit. On that range the
  operations below are the ones of ECMAScript: \<open>trim\<close> and the class \<open>\s\<close> remove
  TAB, LF, VT, FF, CR, SPACE and NBSP; \<open>toLowerCase\<close> maps A to Z and the capital
  letters U+00C0 to U+00DE (without the multiplication sign U+00D7) to the letter 32
  code units higher and leaves every other code unit alone.
\<close>

definition whiteSpaceChars :: "char list" where
  "whiteSpaceChars = [CHR 0x09, CHR 0x0A, CHR 0x0B, CHR 0x0C, CHR 0x0D, CHR 0x20, CHR 0xA0]"

definition isWhiteSpace :: "char \<Rightarrow> bool" where
  "isWhiteSpace c = (c \<in> set whiteSpaceChars)"

definition upperChars :: "char list" where
  "upperChars = ''ABCDEFGHIJKLMNOPQRSTUVWXYZ'' @
     [CHR 0xC0, CHR 0xC1, CHR 0xC2, CHR 0xC3, CHR 0xC4, CHR 0xC5, CHR 0xC6, CHR 0xC7,
      CHR 0xC8, CHR 0xC9, CHR 0xCA, CHR 0xCB, CHR 0xCC, CHR 0xCD, CHR 0xCE, CHR 0xCF,
      CHR 0xD0, CHR 0xD1, CHR 0xD2, CHR 0xD3, CHR 0xD4, CHR 0xD5, CHR 0xD6,
      CHR 0xD8, CHR 0xD9, CHR 0xDA, CHR 0xDB, CHR 0xDC, CHR 0xDD, CHR 0xDE]"

definition lowerChars :: "char list" where
  "lowerChars = ''abcdefghijklmnopqrstuvwxyz'' @
     [CHR 0xE0, CHR 0xE1, CHR 0xE2, CHR 0xE3, CHR 0xE4, CHR 0xE5, CHR 0xE6, CHR 0xE7,
      CHR 0xE8, CHR 0xE9, CHR 0xEA, CHR 0xEB, CHR 0xEC, CHR 0xED, CHR 0xEE, CHR 0xEF,
      CHR 0xF0, CHR 0xF1, CHR 0xF2, CHR 0xF3, CHR 0xF4, CHR 0xF5, CHR 0xF6,
      CHR 0xF8, CHR 0xF9, CHR 0xFA, CHR 0xFB, CHR 0xFC, CHR 0xFD, CHR 0xFE]"

definition toLowerCaseChar :: "char \<Rightarrow> char" where
  "toLowerCaseChar c = (case map_of (zip upperChars lowerChars) c of Some l \<Rightarrow> l | None \<Rightarrow> c)"

definition toLowerCase :: "string \<Rightarrow> string" where
  "toLowerCase s = map toLowerCaseChar s"

definition trim :: "string \<Rightarrow> string" where
  "trim s = rev (dropWhile isWhiteSpace (rev (dropWhile isWhiteSpace s)))"

text \<open>\<open>s.replace(/^@/, '')\<close>: one \<open>@\<close> at the very start of the string is removed.\<close>

fun stripLeadingAt :: "string \<Rightarrow> string" where
  "stripLeadingAt [] = []"
| "stripLeadingAt (c # cs) = (if c = CHR ''@'' then cs else c # cs)"

text \<open>\<open>s.startsWith(p)\<close>, \<open>s.endsWith(p)\<close> and \<open>s.includes(p)\<close>.\<close>

definition startsWith :: "string \<Rightarrow> string \<Rightarrow> bool" where
  "startsWith s p = prefix p s"



section \<open>The Normalizer (instagramExport.ts, normalizeUsername)\<close>

text \<open>\<open>username.trim().replace(/^@/, '').toLowerCase()\<close>\<close>

definition normalizeUsername :: "string \<Rightarrow> string" where
  "normalizeUsername username = toLowerCase (stripLeadingAt (trim username))"

text \<open>A string that is empty or begins with neither \<open>@\<close> nor a white space character.\<close>

definition cleanStart :: "string \<Rightarrow> bool" where
  "cleanStart s = (case s of [] \<Rightarrow> True | c # _ \<Rightarrow> c \<noteq> CHR ''@'' \<and> \<not> isWhiteSpace c)"

section \<open>Sets and sorting\<close>

text \<open>
  A JavaScript \<open>Set\<close> of strings keeps its members in insertion order and holds no
  member twice; it is the list of its members in that order. \<open>Array.from(set)\<close> is
  that list.
\<close>

definition Set_has :: "string list \<Rightarrow> string \<Rightarrow> bool" where
  "Set_has s x = (x \<in> set s)"

definition Set_add :: "string list \<Rightarrow> string \<Rightarrow> string list" where
  "Set_add s x = (if Set_has s x then s else s @ [x])"

definition Set_new :: "string list \<Rightarrow> string list" where
  "Set_new xs = foldl Set_add [] xs"

text \<open>
  \<open>xs.sort((a, b) => a.localeCompare(b))\<close>. The collation behind \<open>localeCompare\<close>
  belongs to the host (its locale data), not to the repository, so the comparison is a
  parameter \<open>cmp\<close> with \<open>cmp a b\<close> the number \<open>a.localeCompare(b)\<close>.
  \<open>Array.prototype.sort\<close> is stable, and for a consistent comparison function its
  result is the stably sorted permutation, which insertion from the right computes.
\<close>

type_synonym comparator = "string \<Rightarrow> string \<Rightarrow> int"

fun insertBy :: "comparator \<Rightarrow> string \<Rightarrow> string list \<Rightarrow> string list" where
  "insertBy cmp x [] = [x]"
| "insertBy cmp x (y # ys) = (if cmp x y \<le> 0 then x # y # ys else y # insertBy cmp x ys)"

definition sortBy :: "comparator \<Rightarrow> string list \<Rightarrow> string list" where
  "sortBy cmp xs = foldr (insertBy cmp) xs []"

text \<open>
  A consistent comparison function in the sense of ECMAScript (Array.prototype.sort):
  reflexive, antisymmetric in its sign, transitive.
\<close>

definition consistentComparator :: "comparator \<Rightarrow> bool" where
  "consistentComparator cmp =
     ((\<forall>a. cmp a a = 0) \<and>
      (\<forall>a b. (cmp a b < 0) = (0 < cmp b a)) \<and>
      (\<forall>a b c. cmp a b \<le> 0 \<and> cmp b c \<le> 0 \<longrightarrow> cmp a c \<le> 0))"

text \<open>Comparison of the code units from left to right: one consistent comparison.\<close>

definition codeUnitCompare :: comparator where
  "codeUnitCompare a b = (if a = b then 0 else if a < b then - 1 else 1)"

section \<open>Dedupe/Sort (uniqueSorted, the same function in both parser files)\<close>

definition addNormalized :: "string list \<Rightarrow> string \<Rightarrow> string list" where
  "addNormalized s u = (let nu = normalizeUsername u in if nu \<noteq> [] then Set_add s nu else s)"

definition uniqueSorted :: "comparator \<Rightarrow> string list \<Rightarrow> string list" where
  "uniqueSorted cmp usernames = sortBy cmp (foldl addNormalized [] usernames)"

section \<open>The Diff Engine (App.tsx, notFollowingBack)\<close>

text \<open>The two lists are \<open>null\<close> (\<open>None\<close>) until their category has loaded.\<close>

definition notFollowingBack :: "string list option \<Rightarrow> string list option \<Rightarrow> string list option" where
  "notFollowingBack followers following =
     (case (followers, following) of
        (Some fs, Some fg) \<Rightarrow>
          (let followersSet = Set_new fs in Some (filter (\<lambda>u. \<not> Set_has followersSet u) fg))
      | _ \<Rightarrow> None)"

section \<open>Regular expressions of the parsers\<close>

text \<open>
  The class \<open>[a-zA-Z0-9._]\<close> and the greedy group \<open>([a-zA-Z0-9._]{1,30})\<close>: the
  longest run of such characters at the current position, cut at 30. In every pattern of
  the repository the group is followed by \<open>\/?\<close> or by nothing, which match whatever
  comes next, so the matcher never gives characters back.
\<close>

definition idChars :: "char list" where
  "idChars = ''abcdefghijklmnopqrstuvwxyzABCDEFGHIJKLMNOPQRSTUVWXYZ0123456789._''"

definition isIdChar :: "char \<Rightarrow> bool" where
  "isIdChar c = (c \<in> set idChars)"

definition segment :: "string \<Rightarrow> string" where
  "segment s = take 30 (takeWhile isIdChar s)"

text \<open>\<open>/^[a-zA-Z0-9._]{1,30}$/.test(raw)\<close>\<close>

definition isPlausible :: "string \<Rightarrow> bool" where
  "isPlausible raw = (raw \<noteq> [] \<and> length raw \<le> 30 \<and> list_all isIdChar raw)"

text \<open>The grammar \<open>[a-z0-9._]{1,30}\<close> of a lower-case identifier.\<close>

definition lowerIdChars :: "char list" where
  "lowerIdChars = ''abcdefghijklmnopqrstuvwxyz0123456789._''"

definition isLowerIdentifier :: "string \<Rightarrow> bool" where
  "isLowerIdentifier s = (s \<noteq> [] \<and> length s \<le> 30 \<and> list_all (\<lambda>c. c \<in> set lowerIdChars) s)"

text \<open>
  A pattern tried at one position of the input: given the input from that position on,
  it gives the text of capture group 1 and the input left after the whole match, or
  \<open>None\<close> when the pattern does not match there.
\<close>

type_synonym matcher = "string \<Rightarrow> (string \<times> string) option"

text \<open>\<open>([a-zA-Z0-9._]{1,30})\/?\<close>\<close>

definition segmentAt :: matcher where
  "segmentAt s =
     (let seg = segment s; r = drop (length seg) s
      in if seg = [] then None else Some (seg, if prefix ''/'' r then drop 1 r else r))"

text \<open>\<open>instagram\.com\/_u\/([a-zA-Z0-9._]{1,30})\/?\<close>\<close>

definition uPathAt :: matcher where
  "uPathAt s = (if prefix ''instagram.com/_u/'' s then segmentAt (drop 17 s) else None)"

text \<open>\<open>instagram\.com\/([a-zA-Z0-9._]{1,30})\/?\<close>\<close>

definition pathAt :: matcher where
  "pathAt s = (if prefix ''instagram.com/'' s then segmentAt (drop 14 s) else None)"

text \<open>
  \<open>https?:\/\/(?:www\.)?instagram\.com\/([a-zA-Z0-9._]{1,30})\/?\<close>. An optional part
  that is present is taken: what must follow it (\<open>:\<close>, \<open>i\<close>) differs from its
  first character, so leaving it out cannot match either.
\<close>

definition urlAt :: matcher where
  "urlAt s =
     (if prefix ''http'' s then
        (let s1 = drop 4 s; s2 = (if prefix ''s'' s1 then drop 1 s1 else s1)
         in if prefix ''://'' s2 then
              (let s3 = drop 3 s2; s4 = (if prefix ''www.'' s3 then drop 4 s3 else s3)
               in pathAt s4)
            else None)
      else None)"

text \<open>\<open>@([a-zA-Z0-9._]{1,30})\<close>\<close>

definition atAt :: matcher where
  "atAt s =
     (if prefix ''@'' s then
        (let seg = segment (drop 1 s)
         in if seg = [] then None else Some (seg, drop (length seg) (drop 1 s)))
      else None)"

text \<open>\<open>@?([a-zA-Z0-9._]{1,30})\<close>\<close>

definition optAtAt :: matcher where
  "optAtAt s =
     (let r = (if prefix ''@'' s then drop 1 s else s); seg = segment r
      in if seg = [] then None else Some (seg, drop (length seg) r))"

text \<open>
  \<open>"value"\s*:\s*"([^"]{1,64})"\<close>. The group takes every character up to the next
  double quote (line breaks too); the pattern matches when there are between 1 and 64 of
  them and the quote is there.
\<close>

definition valueAt :: matcher where
  \<open>valueAt s =
     (if prefix ''"value"'' s then
        (let s1 = dropWhile isWhiteSpace (drop 7 s)
         in if prefix '':'' s1 then
              (let s2 = dropWhile isWhiteSpace (drop 1 s1)
               in if prefix ''"'' s2 then
                    (let body = takeWhile (\<lambda>c. c \<noteq> CHR 0x22) (drop 1 s2);
                         s3 = drop (length body) (drop 1 s2)
                     in if body \<noteq> [] \<and> length body \<le> 64 \<and> prefix ''"'' s3
                        then Some (body, drop 1 s3) else None)
                  else None)
            else None)
      else None)\<close>

text \<open>
  \<open>s.match(re)\<close> for a pattern without the \<open>g\<close> flag: the match at the leftmost
  position where the pattern matches; the result is its capture group 1.
\<close>

fun firstMatch :: "matcher \<Rightarrow> string \<Rightarrow> string option" where
  "firstMatch m [] = map_option fst (m [])"
| "firstMatch m (c # cs) = (case m (c # cs) of Some (cap, _) \<Rightarrow> Some cap | None \<Rightarrow> firstMatch m cs)"

text \<open>
  \<open>s.matchAll(re)\<close> for a pattern with the \<open>g\<close> flag: the matches from left to
  right, each search starting where the match before ended (one position further after
  an empty match); the result lists capture group 1 of each.
\<close>

function matchAll :: "matcher \<Rightarrow> string \<Rightarrow> string list" where
  "matchAll m s =
     (case m s of
        Some (cap, rest) \<Rightarrow>
          cap # (if s = [] then [] else matchAll m (if length rest < length s then rest else tl s))
      | None \<Rightarrow> (if s = [] then [] else matchAll m (tl s)))"
  by pat_completeness auto
termination
  by (relation "measure (\<lambda>(m, s). length s)") auto

declare matchAll.simps [simp del]

text \<open>\<open>if (match[1]) candidates.push(match[1])\<close> over the matches of one pattern.\<close>

definition pushCaptures :: "string list \<Rightarrow> string list" where
  "pushCaptures caps = filter (\<lambda>cap. cap \<noteq> []) caps"

section \<open>Decoded structured data\<close>

text \<open>
  The value \<open>JSON.parse\<close> returns. An object is the list of its own properties in the
  order \<open>Object.entries\<close> enumerates them (each key once); numbers are never looked at.
\<close>

datatype json =
    JNull
  | JBool bool
  | JNumber real
  | JString string
  | JArray "json list"
  | JObject "(string \<times> json) list"

text \<open>\<open>typeof value === 'object' && value !== null\<close>: objects and arrays.\<close>

fun isRecord :: "json \<Rightarrow> bool" where
  "isRecord (JObject _) = True"
| "isRecord (JArray _) = True"
| "isRecord _ = False"

text \<open>
  \<open>value[key]\<close> for the keys the parser reads (\<open>string_list_data\<close>, \<open>value\<close>,
  \<open>title\<close>, \<open>href\<close>, \<open>relationships_followers\<close>, \<open>relationships_following\<close>);
  \<open>None\<close> is \<open>undefined\<close>. None of these keys is an index or \<open>length\<close>, so an array
  has none of them.
\<close>

fun getProp :: "json \<Rightarrow> string \<Rightarrow> json option" where
  "getProp (JObject kvs) key = map_of kvs key"
| "getProp _ key = None"

text \<open>The decimal numeral of an array index, as \<open>Object.entries\<close> writes the keys of an array.\<close>

fun decimal :: "nat \<Rightarrow> string" where
  "decimal n = (if n < 10 then [''0123456789'' ! n] else decimal (n div 10) @ [''0123456789'' ! (n mod 10)])"

fun Object_entries :: "json \<Rightarrow> (string \<times> json) list" where
  "Object_entries (JObject kvs) = kvs"
| "Object_entries (JArray xs) = zip (map decimal [0..<length xs]) xs"
| "Object_entries _ = []"

fun toStringOrNull :: "json option \<Rightarrow> string option" where
  "toStringOrNull (Some (JString s)) = Some s"
| "toStringOrNull _ = None"

section \<open>The Entry Extractor (instagramExport.ts)\<close>

definition extractUsernameFromHref :: "string \<Rightarrow> string option" where
  "extractUsernameFromHref href =
     (case firstMatch uPathAt href of
        Some u \<Rightarrow> if u \<noteq> [] then Some u else
          (case firstMatch pathAt href of Some v \<Rightarrow> if v \<noteq> [] then Some v else None | None \<Rightarrow> None)
      | None \<Rightarrow>
          (case firstMatch pathAt href of Some v \<Rightarrow> if v \<noteq> [] then Some v else None | None \<Rightarrow> None))"

text \<open>The first loop over \<open>string_list_data\<close>: the first item with a non-empty string \<open>value\<close>.\<close>

fun firstValue :: "json list \<Rightarrow> string option" where
  "firstValue [] = None"
| "firstValue (item # rest) =
     (if \<not> isRecord item then firstValue rest
      else case toStringOrNull (getProp item ''value'') of
             Some v \<Rightarrow> if v \<noteq> [] then Some v else firstValue rest
           | None \<Rightarrow> firstValue rest)"

text \<open>The second loop: the first item whose \<open>href\<close> yields a username.\<close>

fun firstHref :: "json list \<Rightarrow> string option" where
  "firstHref [] = None"
| "firstHref (item # rest) =
     (if \<not> isRecord item then firstHref rest
      else case toStringOrNull (getProp item ''href'') of
             None \<Rightarrow> firstHref rest
           | Some href \<Rightarrow>
               if href = [] then firstHref rest
               else (case extractUsernameFromHref href of
                       Some u \<Rightarrow> if u \<noteq> [] then Some u else firstHref rest
                     | None \<Rightarrow> firstHref rest))"

definition extractUsernameFromRelationshipEntry :: "json \<Rightarrow> string option" where
  "extractUsernameFromRelationshipEntry entry =
     (if \<not> isRecord entry then None
      else case getProp entry ''string_list_data'' of
             Some (JArray sld) \<Rightarrow>
               (case firstValue sld of
                  Some v \<Rightarrow> Some v
                | None \<Rightarrow>
                    (case toStringOrNull (getProp entry ''title'') of
                       Some t \<Rightarrow> if t \<noteq> [] then Some t else firstHref sld
                     | None \<Rightarrow> firstHref sld))
           | _ \<Rightarrow> None)"

section \<open>The Structured-Data Parser (instagramExport.ts)\<close>

datatype Kind = Followers | Following | Unknown

record ParseResult =
  kind :: Kind
  usernames :: "string list"
  warnings :: "string list"

text \<open>\<open>Boolean(u)\<close> on a string or \<open>null\<close>.\<close>

fun truthy :: "string option \<Rightarrow> bool" where
  "truthy (Some u) = (u \<noteq> [])"
| "truthy None = False"

text \<open>\<open>entries.map(extractUsernameFromRelationshipEntry).filter((u) => Boolean(u))\<close>\<close>

definition extractUsernames :: "json list \<Rightarrow> string list" where
  "extractUsernames entries = map the (filter truthy (map extractUsernameFromRelationshipEntry entries))"

definition msgFollowersEmpty :: string where
  "msgFollowersEmpty = ''Se detect'' @ [CHR 0xF3] @ '' followers, pero no se pudieron extraer usernames.''"

definition msgFollowingEmpty :: string where
  "msgFollowingEmpty = ''Se detect'' @ [CHR 0xF3] @ '' following, pero no se pudieron extraer usernames.''"

definition msgNonStandard :: "string \<Rightarrow> string" where
  \<open>msgNonStandard key = ''Formato no est'' @ [CHR 0xE1] @ ''ndar: se extrajo desde "'' @ key @ ''".''\<close>

definition msgArrayEmpty :: string where
  "msgArrayEmpty = ''El JSON es un array, pero no se pudieron extraer usernames.''"

definition msgUnrecognized :: string where
  "msgUnrecognized = ''Formato de JSON no reconocido para seguidores/seguidos.''"

text \<open>The loop over \<open>Object.entries(json)\<close>; \<open>None\<close> when it ends without returning.\<close>

fun scanEntries :: "comparator \<Rightarrow> (string \<times> json) list \<Rightarrow> ParseResult option" where
  "scanEntries cmp [] = None"
| "scanEntries cmp ((key, value) # rest) =
     (if \<not> startsWith key ''relationships_'' then scanEntries cmp rest
      else case value of
             JArray entries \<Rightarrow>
               (let us = extractUsernames entries
                in if length us > 0
                   then Some \<lparr>kind = Unknown, usernames = uniqueSorted cmp us,
                              warnings = [msgNonStandard key]\<rparr>
                   else scanEntries cmp rest)
           | _ \<Rightarrow> scanEntries cmp rest)"

text \<open>The branch \<open>if (isRecord(json)) { ... }\<close>; \<open>None\<close> when it falls through.\<close>

definition recordBranch :: "comparator \<Rightarrow> json \<Rightarrow> ParseResult option" where
  "recordBranch cmp json =
     (case getProp json ''relationships_followers'' of
        Some (JArray followers) \<Rightarrow>
          (let us = extractUsernames followers
           in Some \<lparr>kind = Followers, usernames = uniqueSorted cmp us,
                     warnings = (if length us = 0 then [msgFollowersEmpty] else [])\<rparr>)
      | _ \<Rightarrow>
          (case getProp json ''relationships_following'' of
             Some (JArray following) \<Rightarrow>
               (let us = extractUsernames following
                in Some \<lparr>kind = Following, usernames = uniqueSorted cmp us,
                          warnings = (if length us = 0 then [msgFollowingEmpty] else [])\<rparr>)
           | _ \<Rightarrow> scanEntries cmp (Object_entries json)))"

definition parseInstagramRelationshipJson :: "comparator \<Rightarrow> json \<Rightarrow> ParseResult" where
  "parseInstagramRelationshipJson cmp json =
     (case (if isRecord json then recordBranch cmp json else None) of
        Some result \<Rightarrow> result
      | None \<Rightarrow>
          (case json of
             JArray entries \<Rightarrow>
               (let us = extractUsernames entries
                in \<lparr>kind = Unknown, usernames = uniqueSorted cmp us,
                    warnings = (if length us = 0 then [msgArrayEmpty] else [])\<rparr>)
           | _ \<Rightarrow> \<lparr>kind = Unknown, usernames = [], warnings = [msgUnrecognized]\<rparr>))"

section \<open>The Markup Parser (lib/instagramExportHtml.ts)\<close>

text \<open>
  The structural pass needs the browser's \<open>DOMParser\<close>, which is not part of the
  repository. It is a parameter: for a text it gives the anchor elements of the parsed
  document in document order, each as \<open>a.getAttribute('href')\<close> and \<open>a.textContent\<close>
  (\<open>None\<close> for \<open>null\<close>), or \<open>None\<close> when \<open>DOMParser\<close> is not defined or parsing
  throws (the \<open>catch\<close> is empty).
\<close>

type_synonym anchor = "string option \<times> string option"
type_synonym domParser = "string \<Rightarrow> anchor list option"

text \<open>\<open>x ?? ''\<close>\<close>

fun orEmpty :: "string option \<Rightarrow> string" where
  "orEmpty (Some x) = x"
| "orEmpty None = []"

text \<open>The body of the loop over the anchors: what one anchor pushes.\<close>

definition anchorCandidates :: "anchor \<Rightarrow> string list" where
  "anchorCandidates a =
     (let href = orEmpty (fst a); txt = orEmpty (snd a);
          hrefMatch = firstMatch pathAt href;
          textMatch = firstMatch optAtAt txt
      in (if truthy hrefMatch then [the hrefMatch] else []) @
         (if truthy textMatch then [the textMatch] else []))"

definition msgHtmlImported :: string where
  "msgHtmlImported = ''Se import'' @ [CHR 0xF3] @ '' un archivo HTML (export de Instagram en formato HTML).''"

definition msgHtmlEmpty :: string where
  "msgHtmlEmpty = ''No se pudieron extraer usernames desde el HTML. Si Instagram te deja elegir formato, prueba con JSON.''"

definition htmlCandidates :: "domParser \<Rightarrow> string \<Rightarrow> string list" where
  "htmlCandidates anchorsOf htmlText =
     pushCaptures (matchAll urlAt htmlText) @
     pushCaptures (matchAll atAt htmlText) @
     pushCaptures (matchAll valueAt htmlText) @
     (case anchorsOf htmlText of Some anchors \<Rightarrow> concat (map anchorCandidates anchors) | None \<Rightarrow> [])"

definition parseInstagramRelationshipHtml :: "comparator \<Rightarrow> domParser \<Rightarrow> string \<Rightarrow> ParseResult" where
  "parseInstagramRelationshipHtml cmp anchorsOf htmlText =
     (let candidates = htmlCandidates anchorsOf htmlText;
          plausible = filter isPlausible candidates;
          us = uniqueSorted cmp plausible
      in \<lparr>kind = Unknown, usernames = us,
          warnings = [msgHtmlImported] @ (if length us = 0 then [msgHtmlEmpty] else [])\<rparr>)"

section \<open>The Aggregator (App.tsx, handleFiles)\<close>



















section \<open>Notions used in the statements\<close>

text \<open>\<open>Array.isArray(json[key])\<close>\<close>

definition isArrayField :: "json \<Rightarrow> string \<Rightarrow> bool" where
  "isArrayField json key = (case getProp json key of Some (JArray _) \<Rightarrow> True | _ \<Rightarrow> False)"

text \<open>
  A field the loop over the entries returns from: its name starts with
  \<open>relationships_\<close>, its value is an array, and at least one username is extracted
  from the array.
\<close>

definition usableField :: "string \<times> json \<Rightarrow> bool" where
  "usableField kv =
     (case snd kv of
        JArray entries \<Rightarrow> startsWith (fst kv) ''relationships_'' \<and> extractUsernames entries \<noteq> []
      | _ \<Rightarrow> False)"

text \<open>The fields in lexical order of their keys, the order the specification names.\<close>

definition lexicalOrder :: "(string \<times> json) list \<Rightarrow> (string \<times> json) list" where
  "lexicalOrder kvs = sort_key fst kvs"

text \<open>The entry \<open>{"string_list_data": [{"value": v}]}\<close>.\<close>

definition valueEntry :: "string \<Rightarrow> json" where
  "valueEntry v = JObject [(''string_list_data'', JArray [JObject [(''value'', JString v)]])]"

text \<open>
  The result for the field picked among the remaining fields: kind unknown, the
  identifiers of that field and the warning that names it; without such a field, the
  result for an unrecognized format.
\<close>

definition fieldResult :: "comparator \<Rightarrow> (string \<times> json) option \<Rightarrow> ParseResult" where
  "fieldResult cmp picked =
     (case picked of
        Some (key, JArray entries) \<Rightarrow>
          \<lparr>kind = Unknown, usernames = uniqueSorted cmp (extractUsernames entries),
           warnings = [msgNonStandard key]\<rparr>
      | _ \<Rightarrow> \<lparr>kind = Unknown, usernames = [], warnings = [msgUnrecognized]\<rparr>)"

text \<open>Two non-standard fields, the later one first in lexical order.\<close>

definition twoFields :: "(string \<times> json) list" where
  "twoFields = [(''relationships_b'', JArray [valueEntry ''x'']), (''relationships_a'', JArray [valueEntry ''y''])]"




















text \<open>The markup text of the example.\<close>

definition exampleMarkup :: string where
  \<open>exampleMarkup = ''Visit https://instagram.com/Dave/ and @erin and "value":"Frank"''\<close>

















section \<open>Properties of the Normalizer\<close>

lemmas string_eval = normalizeUsername_def trim_def isWhiteSpace_def whiteSpaceChars_def
  toLowerCase_def toLowerCaseChar_def upperChars_def lowerChars_def

lemma lower_table_disj: "set lowerChars \<inter> set upperChars = {}"
  by (simp add: upperChars_def lowerChars_def)

lemma upper_not_special: "c \<in> set upperChars \<Longrightarrow> c \<noteq> CHR ''@'' \<and> \<not> isWhiteSpace c"
  by (auto simp: upperChars_def isWhiteSpace_def whiteSpaceChars_def)

lemma lower_not_special: "c \<in> set lowerChars \<Longrightarrow> c \<noteq> CHR ''@'' \<and> \<not> isWhiteSpace c"
  by (auto simp: lowerChars_def isWhiteSpace_def whiteSpaceChars_def)

lemma toLowerCaseChar_cases:
  "(c \<notin> set upperChars \<and> toLowerCaseChar c = c) \<or>
   (c \<in> set upperChars \<and> toLowerCaseChar c \<in> set lowerChars)"
proof (cases "map_of (zip upperChars lowerChars) c")
  case None
  have "length upperChars = length lowerChars" by (simp add: upperChars_def lowerChars_def)
  then have "c \<notin> set upperChars" using None
    by (metis map_of_zip_is_None)
  then show ?thesis using None by (simp add: toLowerCaseChar_def)
next
  case (Some l)
  then have "(c, l) \<in> set (zip upperChars lowerChars)" by (rule map_of_SomeD)
  then have "c \<in> set upperChars" "l \<in> set lowerChars"
    by (auto dest: set_zip_leftD set_zip_rightD)
  then show ?thesis using Some by (simp add: toLowerCaseChar_def)
qed

lemma toLowerCaseChar_idem: "toLowerCaseChar (toLowerCaseChar c) = toLowerCaseChar c"
  using toLowerCaseChar_cases [of c] toLowerCaseChar_cases [of "toLowerCaseChar c"] lower_table_disj
  by auto

lemma toLowerCase_idem: "toLowerCase (toLowerCase s) = toLowerCase s"
  by (simp add: toLowerCase_def toLowerCaseChar_idem)

lemma isWhiteSpace_lower [simp]: "isWhiteSpace (toLowerCaseChar c) = isWhiteSpace c"
  using toLowerCaseChar_cases [of c] upper_not_special [of c] lower_not_special [of "toLowerCaseChar c"]
  by auto

lemma at_lower [simp]: "(toLowerCaseChar c = CHR ''@'') = (c = CHR ''@'')"
  using toLowerCaseChar_cases [of c] upper_not_special [of c] lower_not_special [of "toLowerCaseChar c"]
  by auto

lemma dropWhile_ws_lower: "dropWhile isWhiteSpace (toLowerCase s) = toLowerCase (dropWhile isWhiteSpace s)"
  by (induction s) (simp_all add: toLowerCase_def)

lemma trim_lower: "trim (toLowerCase s) = toLowerCase (trim s)"
  unfolding trim_def
  by (metis dropWhile_ws_lower rev_map toLowerCase_def)

lemma strip_lower: "stripLeadingAt (toLowerCase s) = toLowerCase (stripLeadingAt s)"
  by (cases s) (simp_all add: toLowerCase_def)

lemma length_lower [simp]: "length (toLowerCase s) = length s"
  by (simp add: toLowerCase_def)

lemma trim_no_trailing: "trim s \<noteq> [] \<Longrightarrow> \<not> isWhiteSpace (last (trim s))"
  unfolding trim_def
  by (metis (no_types, lifting) dropWhile_eq_Nil_conv hd_dropWhile last_rev rev_is_Nil_conv)

lemma trim_no_leading: "trim s \<noteq> [] \<Longrightarrow> \<not> isWhiteSpace (hd (trim s))"
proof -
  assume ne: "trim s \<noteq> []"
  let ?d = "dropWhile isWhiteSpace s"
  have dne: "?d \<noteq> []"
  proof
    assume "?d = []"
    then have "trim s = []" unfolding trim_def by (simp only: rev.simps dropWhile.simps)
    then show False using ne by simp
  qed
  then have h: "\<not> isWhiteSpace (hd ?d)" by (rule hd_dropWhile)
  obtain c cs where d: "?d = c # cs" using dne by (cases ?d) auto
  then have nc: "\<not> isWhiteSpace c" using h by simp
  have "rev ?d = rev cs @ [c]" using d by simp
  then have "dropWhile isWhiteSpace (rev ?d) = dropWhile isWhiteSpace (rev cs) @ [c] \<or> 
             dropWhile isWhiteSpace (rev ?d) = [c]"
    using nc by (simp add: dropWhile_append)
  then have "hd (trim s) = c" unfolding trim_def
    by (metis (no_types, lifting) hd_rev last_snoc last.simps)
  then show ?thesis using nc by simp
qed

lemma trim_fixed: "s = [] \<or> (\<not> isWhiteSpace (hd s) \<and> \<not> isWhiteSpace (last s)) \<Longrightarrow> trim s = s"
proof (cases s)
  case Nil then show ?thesis by (simp add: trim_def)
next
  case (Cons c cs)
  assume "s = [] \<or> (\<not> isWhiteSpace (hd s) \<and> \<not> isWhiteSpace (last s))"
  then have a: "\<not> isWhiteSpace c" "\<not> isWhiteSpace (last s)" using Cons by auto
  have "dropWhile isWhiteSpace s = s" using a Cons by simp
  moreover have "dropWhile isWhiteSpace (rev s) = rev s"
    using a Cons by (metis dropWhile_eq_self_iff hd_rev list.distinct(1) rev_is_Nil_conv)
  ultimately show ?thesis by (simp add: trim_def)
qed

lemma length_trim_le: "length (trim s) \<le> length s"
  unfolding trim_def
  by (metis length_dropWhile_le length_rev order_trans)

lemma length_trim_less: "s \<noteq> [] \<Longrightarrow> isWhiteSpace (hd s) \<Longrightarrow> length (trim s) < length s"
proof -
  assume "s \<noteq> []" "isWhiteSpace (hd s)"
  then obtain c cs where s: "s = c # cs" and c: "isWhiteSpace c" by (cases s) auto
  have "length (dropWhile isWhiteSpace s) \<le> length cs" using s c by (simp add: length_dropWhile_le)
  moreover have "length (trim s) \<le> length (dropWhile isWhiteSpace s)"
    unfolding trim_def by (metis length_dropWhile_le length_rev)
  ultimately show ?thesis using s by simp
qed

lemma length_strip_le: "length (stripLeadingAt s) \<le> length s"
  by (cases s) auto

lemma normalize_twice:
  "normalizeUsername (normalizeUsername x) = toLowerCase (stripLeadingAt (trim (stripLeadingAt (trim x))))"
  by (simp add: normalizeUsername_def trim_lower strip_lower toLowerCase_idem)

lemma cleanStart_lower: "cleanStart (toLowerCase s) = cleanStart s"
  by (cases s) (simp_all add: cleanStart_def toLowerCase_def)

lemma strip_trim_last: "stripLeadingAt (trim x) \<noteq> [] \<Longrightarrow> \<not> isWhiteSpace (last (stripLeadingAt (trim x)))"
proof -
  assume ne: "stripLeadingAt (trim x) \<noteq> []"
  then have t: "trim x \<noteq> []" by (cases "trim x") auto
  have "last (stripLeadingAt (trim x)) = last (trim x)"
    using ne by (cases "trim x") (auto split: if_splits)
  then show ?thesis using trim_no_trailing [OF t] by simp
qed

lemma normalize_twice_iff:
  "(normalizeUsername (normalizeUsername x) = normalizeUsername x) = cleanStart (normalizeUsername x)"
proof -
  let ?s = "stripLeadingAt (trim x)"
  have cs: "cleanStart (normalizeUsername x) = cleanStart ?s"
    by (simp add: normalizeUsername_def cleanStart_lower)
  have l2: "length (normalizeUsername (normalizeUsername x)) = length (stripLeadingAt (trim ?s))"
    by (simp add: normalize_twice)
  have l1: "length (normalizeUsername x) = length ?s"
    by (simp add: normalizeUsername_def)
  show ?thesis
  proof (cases ?s)
    case Nil
    then show ?thesis by (simp add: normalize_twice normalizeUsername_def cleanStart_def toLowerCase_def trim_def)
  next
    case (Cons c cs')
    then have ne: "?s \<noteq> []" by simp
    have lastok: "\<not> isWhiteSpace (last ?s)" using strip_trim_last [OF ne] .
    show ?thesis
    proof (cases "isWhiteSpace c")
      case True
      then have "length (trim ?s) < length ?s" using Cons length_trim_less [of ?s] by simp
      then have "length (stripLeadingAt (trim ?s)) < length ?s"
        using length_strip_le [of "trim ?s"] by simp
      then have "normalizeUsername (normalizeUsername x) \<noteq> normalizeUsername x"
        using l1 l2 by auto
      then show ?thesis using True Cons cs by (simp add: cleanStart_def)
    next
      case False
      then have tr: "trim ?s = ?s" using Cons lastok trim_fixed [of ?s] by simp
      show ?thesis
      proof (cases "c = CHR ''@''")
        case True
        then have "length (stripLeadingAt (trim ?s)) < length ?s" using tr Cons by simp
        then have "normalizeUsername (normalizeUsername x) \<noteq> normalizeUsername x"
          using l1 l2 by auto
        then show ?thesis using True Cons cs by (simp add: cleanStart_def)
      next
        case nat: False
        then have "stripLeadingAt (trim ?s) = ?s" using tr Cons by simp
        then have "normalizeUsername (normalizeUsername x) = toLowerCase ?s"
          by (simp only: normalize_twice)
        moreover have "normalizeUsername x = toLowerCase ?s"
          by (simp only: normalizeUsername_def)
        moreover have "cleanStart ?s" using nat False Cons by (simp add: cleanStart_def)
        ultimately show ?thesis using cs by simp
      qed
    qed
  qed
qed

text \<open>
  C7 (as amended). Normalizing twice gives the same string as normalizing once exactly
  when the normalized string is empty or begins with neither \<open>@\<close> nor white space:
  only one leading \<open>@\<close> is removed, and the white space behind it stays. The three
  spellings of the example all normalize to \<open>foo\<close>.
\<close>

theorem normalizeUsername_idempotent_iff:
  "(normalizeUsername (normalizeUsername x) = normalizeUsername x) = cleanStart (normalizeUsername x)
   \<and> normalizeUsername ''@Foo'' = ''foo'' \<and> normalizeUsername ''foo'' = ''foo''
   \<and> normalizeUsername '' foo '' = ''foo''"
proof -
  have examples: "normalizeUsername ''@Foo'' = ''foo'' \<and> normalizeUsername ''foo'' = ''foo''
     \<and> normalizeUsername '' foo '' = ''foo''"
    by (simp add: string_eval)
  then show ?thesis using normalize_twice_iff [of x] by simp
qed

theorem normalizeUsername_idempotent_witness:
  "cleanStart (normalizeUsername '' @Foo '') \<and>
   normalizeUsername (normalizeUsername '' @Foo '') = normalizeUsername '' @Foo ''"
  using normalizeUsername_idempotent_iff [of "'' @Foo ''"]
  by (simp add: string_eval cleanStart_def)

text \<open>
  C7 (as stated) fails: \<open>@@foo\<close> normalizes to \<open>@foo\<close>, which normalizes to
  \<open>foo\<close>.
\<close>

theorem normalizeUsername_not_idempotent:
  "normalizeUsername (normalizeUsername ''@@foo'') \<noteq> normalizeUsername ''@@foo''"
  by (simp add: string_eval)

section \<open>Properties of the Diff Engine\<close>

lemma set_foldl_Set_add: "set (foldl Set_add s xs) = set s \<union> set xs"
  by (induction xs arbitrary: s) (auto simp: Set_add_def Set_has_def)

lemma set_Set_new: "set (Set_new xs) = set xs"
  by (simp add: Set_new_def set_foldl_Set_add)

text \<open>
  C1. With both lists loaded, the difference is the list of the elements of
  \<open>following\<close> that do not occur in \<open>followers\<close>, in the order (and with the
  repetitions) they have in \<open>following\<close>; on the example it is \<open>[carol]\<close>.
\<close>

theorem notFollowingBack_filter:
  "notFollowingBack (Some followers) (Some following) =
     Some (filter (\<lambda>u. u \<notin> set followers) following)
   \<and> subseq (filter (\<lambda>u. u \<notin> set followers) following) following
   \<and> notFollowingBack (Some [''alice'', ''bob'']) (Some [''alice'', ''bob'', ''carol'']) = Some [''carol'']"
  by (simp add: notFollowingBack_def Set_has_def set_Set_new)

section \<open>Properties of Dedupe/Sort\<close>

lemma set_insertBy: "set (insertBy cmp x ys) = insert x (set ys)"
  by (induction ys) auto

lemma set_sortBy: "set (sortBy cmp xs) = set xs"
  unfolding sortBy_def by (induction xs) (simp_all add: set_insertBy)

lemma distinct_insertBy: "distinct (insertBy cmp x ys) = (x \<notin> set ys \<and> distinct ys)"
  by (induction ys) (auto simp: set_insertBy)

lemma distinct_sortBy: "distinct (sortBy cmp xs) = distinct xs"
  unfolding sortBy_def
proof (induction xs)
  case Nil show ?case by simp
next
  case (Cons x xs)
  have "set (foldr (insertBy cmp) xs []) = set xs"
    using set_sortBy [of cmp xs] by (simp add: sortBy_def)
  then show ?case using Cons by (simp add: distinct_insertBy)
qed

lemma length_insertBy: "length (insertBy cmp x ys) = Suc (length ys)"
  by (induction ys) auto

lemma length_sortBy: "length (sortBy cmp xs) = length xs"
  unfolding sortBy_def by (induction xs) (simp_all add: length_insertBy)

lemma sortBy_Nil_iff: "(sortBy cmp xs = []) = (xs = [])"
  using length_sortBy [of cmp xs] by (metis length_0_conv)

lemma consistent_total: "consistentComparator cmp \<Longrightarrow> \<not> cmp x y \<le> 0 \<Longrightarrow> cmp y x \<le> 0"
  unfolding consistentComparator_def
  by (metis less_le_not_le linorder_not_le)

lemma consistent_trans:
  "consistentComparator cmp \<Longrightarrow> cmp x y \<le> 0 \<Longrightarrow> cmp y z \<le> 0 \<Longrightarrow> cmp x z \<le> 0"
  unfolding consistentComparator_def by blast

lemma sorted_insertBy:
  assumes c: "consistentComparator cmp"
  shows "sorted_wrt (\<lambda>a b. cmp a b \<le> 0) ys \<Longrightarrow> sorted_wrt (\<lambda>a b. cmp a b \<le> 0) (insertBy cmp x ys)"
proof (induction ys)
  case Nil
  show ?case by simp
next
  case (Cons y ys)
  show ?case
  proof (cases "cmp x y \<le> 0")
    case True
    then have "\<forall>z\<in>set ys. cmp x z \<le> 0"
      using Cons.prems consistent_trans [OF c] by auto
    then show ?thesis using True Cons.prems by simp
  next
    case False
    then have "cmp y x \<le> 0" using consistent_total [OF c] by blast
    then show ?thesis using False Cons by (auto simp: set_insertBy)
  qed
qed

lemma sorted_sortBy:
  "consistentComparator cmp \<Longrightarrow> sorted_wrt (\<lambda>a b. cmp a b \<le> 0) (sortBy cmp xs)"
  unfolding sortBy_def by (induction xs) (simp_all add: sorted_insertBy)

lemma set_foldl_addNormalized:
  "set (foldl addNormalized s xs) = set s \<union> {normalizeUsername u |u. u \<in> set xs \<and> normalizeUsername u \<noteq> []}"
  by (induction xs arbitrary: s) (auto simp: addNormalized_def Set_add_def Set_has_def Let_def)

lemma distinct_foldl_addNormalized:
  "distinct s \<Longrightarrow> distinct (foldl addNormalized s xs)"
  by (induction xs arbitrary: s) (auto simp: addNormalized_def Set_add_def Set_has_def Let_def)

lemma set_uniqueSorted:
  "set (uniqueSorted cmp xs) = {normalizeUsername u |u. u \<in> set xs \<and> normalizeUsername u \<noteq> []}"
  by (simp add: uniqueSorted_def set_sortBy set_foldl_addNormalized)

lemma distinct_uniqueSorted: "distinct (uniqueSorted cmp xs)"
  by (simp add: uniqueSorted_def distinct_sortBy distinct_foldl_addNormalized)

lemma consistent_codeUnitCompare: "consistentComparator codeUnitCompare"
  unfolding consistentComparator_def codeUnitCompare_def by auto

text \<open>
  C6 (as amended). For a consistent comparison function the output of uniqueSorted has no
  element twice, is sorted ascending under the comparison, and holds exactly the
  non-empty normalized values of the tokens. When the normalized value of every token
  is empty or begins with neither \<open>@\<close> nor white space, no two elements have an equal
  normalized value and the output is sorted by normalized value.
\<close>

theorem uniqueSorted_distinct_sorted:
  assumes "consistentComparator cmp"
  shows "distinct (uniqueSorted cmp xs)
    \<and> sorted_wrt (\<lambda>a b. cmp a b \<le> 0) (uniqueSorted cmp xs)
    \<and> set (uniqueSorted cmp xs) = {normalizeUsername u |u. u \<in> set xs \<and> normalizeUsername u \<noteq> []}
    \<and> ((\<forall>u\<in>set xs. cleanStart (normalizeUsername u)) \<longrightarrow>
         distinct (map normalizeUsername (uniqueSorted cmp xs)) \<and>
         sorted_wrt (\<lambda>a b. cmp (normalizeUsername a) (normalizeUsername b) \<le> 0) (uniqueSorted cmp xs))"
proof -
  let ?out = "uniqueSorted cmp xs"
  have d: "distinct ?out" by (rule distinct_uniqueSorted)
  have s: "sorted_wrt (\<lambda>a b. cmp a b \<le> 0) ?out"
    using assms by (simp add: uniqueSorted_def sorted_sortBy)
  have m: "set ?out = {normalizeUsername u |u. u \<in> set xs \<and> normalizeUsername u \<noteq> []}"
    by (rule set_uniqueSorted)
  have k: "distinct (map normalizeUsername ?out) \<and>
       sorted_wrt (\<lambda>a b. cmp (normalizeUsername a) (normalizeUsername b) \<le> 0) ?out"
    if clean: "\<forall>u\<in>set xs. cleanStart (normalizeUsername u)"
  proof -
    have fixed: "normalizeUsername y = y" if yin: "y \<in> set ?out" for y
    proof -
      obtain u where "u \<in> set xs" "y = normalizeUsername u" using yin m by auto
      then show ?thesis using clean normalize_twice_iff [of u] by simp
    qed
    then have "map normalizeUsername ?out = ?out" using fixed by (simp add: map_idI)
    moreover have "sorted_wrt (\<lambda>a b. cmp (normalizeUsername a) (normalizeUsername b) \<le> 0) ?out"
      using s fixed by (metis (mono_tags, lifting) sorted_wrt_mono_rel)
    ultimately show ?thesis using d by simp
  qed
  show ?thesis using d s m k by blast
qed

theorem uniqueSorted_witness:
  "consistentComparator codeUnitCompare
   \<and> list_all (\<lambda>u. cleanStart (normalizeUsername u)) [''Bob'', ''@alice'', '' bob '']
   \<and> uniqueSorted codeUnitCompare [''Bob'', ''@alice'', '' bob ''] = [''alice'', ''bob'']
   \<and> distinct (map normalizeUsername (uniqueSorted codeUnitCompare [''Bob'', ''@alice'', '' bob '']))
   \<and> sorted_wrt (\<lambda>a b. codeUnitCompare (normalizeUsername a) (normalizeUsername b) \<le> 0)
        (uniqueSorted codeUnitCompare [''Bob'', ''@alice'', '' bob ''])"
proof -
  have c: "consistentComparator codeUnitCompare" by (rule consistent_codeUnitCompare)
  have h: "\<forall>u\<in>set [''Bob'', ''@alice'', '' bob '']. cleanStart (normalizeUsername u)"
    by (simp add: string_eval cleanStart_def)
  have e: "uniqueSorted codeUnitCompare [''Bob'', ''@alice'', '' bob ''] = [''alice'', ''bob'']"
    by (simp add: uniqueSorted_def sortBy_def addNormalized_def Set_add_def Set_has_def
        codeUnitCompare_def string_eval)
  have l: "list_all (\<lambda>u. cleanStart (normalizeUsername u)) [''Bob'', ''@alice'', '' bob '']"
    using h by (simp only: list_all_iff)
  show ?thesis
    using c h l e uniqueSorted_distinct_sorted [OF c, of "[''Bob'', ''@alice'', '' bob '']"]
    by blast
qed

text \<open>
  C6 (as stated) fails: from the tokens \<open>@@foo\<close> and \<open>foo\<close> the output holds
  \<open>@foo\<close> and \<open>foo\<close>, whose normalized values are both \<open>foo\<close>.
\<close>

theorem uniqueSorted_same_identifier_twice:
  "\<not> distinct (map normalizeUsername (uniqueSorted codeUnitCompare [''@@foo'', ''foo'']))"
  by (simp add: uniqueSorted_def sortBy_def addNormalized_def Set_add_def Set_has_def
        codeUnitCompare_def string_eval Let_def)

section \<open>Properties of the Structured-Data Parser\<close>

lemma set_extractUsernames:
  "set (extractUsernames entries) =
     {u. \<exists>e\<in>set entries. extractUsernameFromRelationshipEntry e = Some u \<and> u \<noteq> []}"
proof -
  have "\<And>x. truthy x \<Longrightarrow> \<exists>u. x = Some u \<and> u \<noteq> []"
    by (metis truthy.elims(2))
  then show ?thesis
    unfolding extractUsernames_def by (force simp: image_iff)
qed

lemma parse_followers:
  "getProp json ''relationships_followers'' = Some (JArray entries) \<Longrightarrow>
   parseInstagramRelationshipJson cmp json =
     \<lparr>kind = Followers, usernames = uniqueSorted cmp (extractUsernames entries),
      warnings = (if extractUsernames entries = [] then [msgFollowersEmpty] else [])\<rparr>"
  by (cases json) (simp_all add: parseInstagramRelationshipJson_def recordBranch_def Let_def)

lemmas extract_eval = extractUsernames_def extractUsernameFromRelationshipEntry_def
  extractUsernameFromHref_def uPathAt_def pathAt_def segmentAt_def segment_def isIdChar_def idChars_def

lemmas sort_eval = uniqueSorted_def sortBy_def addNormalized_def Set_add_def Set_has_def Let_def

lemma extract_valueEntry: "v \<noteq> [] \<Longrightarrow> extractUsernameFromRelationshipEntry (valueEntry v) = Some v"
  by (simp add: valueEntry_def extractUsernameFromRelationshipEntry_def)

text \<open>
  C3. An input with an array under \<open>relationships_followers\<close> is parsed as kind
  followers; its identifiers are the deduplicated, sorted normalized usernames extracted
  from the entries of that array, and the only possible warning is the one for an
  array that yields nothing. The example yields \<open>alice\<close> and no warning.
\<close>

theorem parse_followers_kind:
  assumes "getProp json ''relationships_followers'' = Some (JArray entries)"
  shows "kind (parseInstagramRelationshipJson cmp json) = Followers
    \<and> usernames (parseInstagramRelationshipJson cmp json) = uniqueSorted cmp (extractUsernames entries)
    \<and> set (usernames (parseInstagramRelationshipJson cmp json)) =
        {normalizeUsername u |u. (\<exists>e\<in>set entries. extractUsernameFromRelationshipEntry e = Some u)
           \<and> normalizeUsername u \<noteq> []}
    \<and> warnings (parseInstagramRelationshipJson cmp json) =
        (if extractUsernames entries = [] then [msgFollowersEmpty] else [])
    \<and> parseInstagramRelationshipJson cmp
         (JObject [(''relationships_followers'',
            JArray [JObject [(''string_list_data'', JArray [JObject [(''value'', JString ''Alice'')]])]])])
        = \<lparr>kind = Followers, usernames = [''alice''], warnings = []\<rparr>"
proof -
  have ex: "parseInstagramRelationshipJson cmp
         (JObject [(''relationships_followers'',
            JArray [JObject [(''string_list_data'', JArray [JObject [(''value'', JString ''Alice'')]])]])])
        = \<lparr>kind = Followers, usernames = [''alice''], warnings = []\<rparr>"
    by (simp add: parseInstagramRelationshipJson_def recordBranch_def extract_eval sort_eval string_eval)
  have s: "set (uniqueSorted cmp (extractUsernames entries)) =
        {normalizeUsername u |u. (\<exists>e\<in>set entries. extractUsernameFromRelationshipEntry e = Some u)
           \<and> normalizeUsername u \<noteq> []}"
    unfolding set_uniqueSorted set_extractUsernames
    by (auto simp: normalizeUsername_def toLowerCase_def trim_def)
  show ?thesis using parse_followers [OF assms, of cmp] ex s by simp
qed

theorem parse_followers_witness:
  "getProp (JObject [(''relationships_followers'', JArray [valueEntry ''Alice'', valueEntry ''bob''])])
      ''relationships_followers'' = Some (JArray [valueEntry ''Alice'', valueEntry ''bob''])
   \<and> kind (parseInstagramRelationshipJson codeUnitCompare
        (JObject [(''relationships_followers'', JArray [valueEntry ''Alice'', valueEntry ''bob''])])) = Followers
   \<and> usernames (parseInstagramRelationshipJson codeUnitCompare
        (JObject [(''relationships_followers'', JArray [valueEntry ''Alice'', valueEntry ''bob''])]))
       = [''alice'', ''bob'']"
proof -
  let ?es = "[valueEntry ''Alice'', valueEntry ''bob'']"
  let ?j = "JObject [(''relationships_followers'', JArray ?es)]"
  have h: "getProp ?j ''relationships_followers'' = Some (JArray ?es)" by simp
  have e: "uniqueSorted codeUnitCompare (extractUsernames ?es) = [''alice'', ''bob'']"
    by (simp add: extractUsernames_def extract_valueEntry sort_eval string_eval codeUnitCompare_def)
  show ?thesis using h e parse_followers_kind [OF h, of codeUnitCompare] by simp
qed

lemma scanEntries_find:
  "scanEntries cmp kvs =
     (case List.find usableField kvs of
        None \<Rightarrow> None
      | Some kv \<Rightarrow> Some (fieldResult cmp (Some kv)))"
proof (induction kvs)
  case Nil
  show ?case by simp
next
  case (Cons kv kvs)
  obtain k v where kv: "kv = (k, v)" by (cases kv)
  show ?case
  proof (cases "usableField kv")
    case True
    then obtain es where v: "v = JArray es" and st: "startsWith k ''relationships_''"
      and ne: "extractUsernames es \<noteq> []"
      using kv by (auto simp: usableField_def split: json.splits)
    then show ?thesis using True kv by (simp add: fieldResult_def Let_def)
  next
    case False
    then have "scanEntries cmp (kv # kvs) = scanEntries cmp kvs"
      using kv by (cases v) (auto simp: usableField_def Let_def)
    then show ?thesis using False Cons by simp
  qed
qed

text \<open>
  C8 (as amended). For an object with neither a \<open>relationships_followers\<close> nor a
  \<open>relationships_following\<close> array, the parser takes the first usable field in the
  order \<open>Object.entries\<close> enumerates the fields, and returns kind unknown, the
  identifiers of that field and a warning naming it; without a usable field it reports
  an unrecognized format.
\<close>

theorem parse_nonstandard_field:
  assumes "\<not> isArrayField (JObject kvs) ''relationships_followers''"
    and "\<not> isArrayField (JObject kvs) ''relationships_following''"
  shows "parseInstagramRelationshipJson cmp (JObject kvs) = fieldResult cmp (List.find usableField kvs)"
proof -
  have rb: "recordBranch cmp (JObject kvs) = scanEntries cmp kvs"
    using assms
    by (auto simp: recordBranch_def isArrayField_def split: option.splits json.splits)
  show ?thesis
  proof (cases "List.find usableField kvs")
    case None
    then show ?thesis
      by (simp add: parseInstagramRelationshipJson_def rb scanEntries_find fieldResult_def)
  next
    case (Some kv)
    then show ?thesis
      by (simp add: parseInstagramRelationshipJson_def rb scanEntries_find)
  qed
qed

lemma usable_b: "usableField (''relationships_b'', JArray [valueEntry ''x''])"
  by (simp add: usableField_def startsWith_def extractUsernames_def extract_valueEntry)

lemma usable_a: "usableField (''relationships_a'', JArray [valueEntry ''y''])"
  by (simp add: usableField_def startsWith_def extractUsernames_def extract_valueEntry)

theorem parse_nonstandard_field_witness:
  "\<not> isArrayField (JObject twoFields) ''relationships_followers''
   \<and> \<not> isArrayField (JObject twoFields) ''relationships_following''
   \<and> List.find usableField twoFields = Some (''relationships_b'', JArray [valueEntry ''x''])
   \<and> parseInstagramRelationshipJson codeUnitCompare (JObject twoFields) =
       \<lparr>kind = Unknown, usernames = [''x''], warnings = [msgNonStandard ''relationships_b'']\<rparr>"
proof -
  have h1: "\<not> isArrayField (JObject twoFields) ''relationships_followers''"
    by (simp add: isArrayField_def twoFields_def)
  have h2: "\<not> isArrayField (JObject twoFields) ''relationships_following''"
    by (simp add: isArrayField_def twoFields_def)
  have f: "List.find usableField twoFields = Some (''relationships_b'', JArray [valueEntry ''x''])"
    by (simp add: twoFields_def usable_b)
  have u: "uniqueSorted codeUnitCompare (extractUsernames [valueEntry ''x'']) = [''x'']"
    by (simp add: extractUsernames_def extract_valueEntry sort_eval string_eval)
  show ?thesis
    using h1 h2 f u parse_nonstandard_field [OF h1 h2, of codeUnitCompare]
    by (simp add: fieldResult_def)
qed

text \<open>
  C8 (as stated) fails: with \<open>relationships_b\<close> enumerated before
  \<open>relationships_a\<close>, both usable, the parser answers from \<open>relationships_b\<close>,
  not from the field that is first in lexical key order.
\<close>

theorem parse_not_lexical_order:
  "\<not> isArrayField (JObject twoFields) ''relationships_followers''
   \<and> \<not> isArrayField (JObject twoFields) ''relationships_following''
   \<and> List.find usableField (lexicalOrder twoFields) = Some (''relationships_a'', JArray [valueEntry ''y''])
   \<and> parseInstagramRelationshipJson codeUnitCompare (JObject twoFields)
       \<noteq> fieldResult codeUnitCompare (List.find usableField (lexicalOrder twoFields))"
proof -
  have lo: "lexicalOrder twoFields =
      [(''relationships_a'', JArray [valueEntry ''y'']), (''relationships_b'', JArray [valueEntry ''x''])]"
    by (simp add: lexicalOrder_def twoFields_def)
  have f: "List.find usableField (lexicalOrder twoFields) = Some (''relationships_a'', JArray [valueEntry ''y''])"
    by (simp add: lo usable_a)
  have p: "parseInstagramRelationshipJson codeUnitCompare (JObject twoFields) =
       \<lparr>kind = Unknown, usernames = [''x''], warnings = [msgNonStandard ''relationships_b'']\<rparr>"
    by (simp add: parseInstagramRelationshipJson_def recordBranch_def twoFields_def startsWith_def
         extractUsernames_def extract_valueEntry sort_eval string_eval)
  have "msgNonStandard ''relationships_b'' \<noteq> msgNonStandard ''relationships_a''"
    by (simp add: msgNonStandard_def)
  then show ?thesis
    using f p by (simp add: fieldResult_def isArrayField_def twoFields_def)
qed

section \<open>Properties of the Entry Extractor\<close>

lemma segment_plausible: "segment s \<noteq> [] \<Longrightarrow> isPlausible (segment s)"
proof -
  have "\<forall>c\<in>set (segment s). isIdChar c"
    unfolding segment_def by (meson in_set_takeD set_takeWhileD)
  moreover have "length (segment s) \<le> 30" by (simp add: segment_def)
  ultimately show "segment s \<noteq> [] \<Longrightarrow> isPlausible (segment s)"
    by (simp add: isPlausible_def list_all_iff)
qed

lemma segmentAt_plausible: "segmentAt s = Some (u, r) \<Longrightarrow> isPlausible u"
  using segment_plausible [of s]
  by (auto simp: segmentAt_def Let_def split: if_splits)

lemma uPathAt_plausible: "uPathAt s = Some (u, r) \<Longrightarrow> isPlausible u"
  by (auto simp: uPathAt_def split: if_splits dest: segmentAt_plausible)

lemma pathAt_plausible: "pathAt s = Some (u, r) \<Longrightarrow> isPlausible u"
  by (auto simp: pathAt_def split: if_splits dest: segmentAt_plausible)

lemma firstMatch_SomeD: "firstMatch m s = Some u \<Longrightarrow> \<exists>t r. m t = Some (u, r)"
  by (induction s) (auto split: option.splits)

lemma firstMatch_Nil_path [simp]: "firstMatch pathAt [] = None" "firstMatch uPathAt [] = None"
  by (simp_all add: pathAt_def uPathAt_def)

lemma firstMatch_uPath_plausible: "firstMatch uPathAt h = Some u \<Longrightarrow> isPlausible u"
  using firstMatch_SomeD uPathAt_plausible by blast

lemma firstMatch_path_plausible: "firstMatch pathAt h = Some u \<Longrightarrow> isPlausible u"
  using firstMatch_SomeD pathAt_plausible by blast

lemma plausible_nonempty: "isPlausible u \<Longrightarrow> u \<noteq> []"
  by (simp add: isPlausible_def)

lemma extractUsernameFromHref_prefer:
  "extractUsernameFromHref h =
     (case firstMatch uPathAt h of Some u \<Rightarrow> Some u | None \<Rightarrow> firstMatch pathAt h)"
  unfolding extractUsernameFromHref_def
  by (auto split: option.splits dest: firstMatch_uPath_plausible firstMatch_path_plausible plausible_nonempty)


lemma extractUsernameFromHref_Nil [simp]: "extractUsernameFromHref [] = None"
  by (simp add: extractUsernameFromHref_prefer pathAt_def uPathAt_def)













section \<open>Properties of the Markup Parser\<close>

lemma idChar_not_special: "isIdChar c \<Longrightarrow> \<not> isWhiteSpace c \<and> c \<noteq> CHR ''@''"
  by (auto simp: isIdChar_def idChars_def isWhiteSpace_def whiteSpaceChars_def)

lemma lower_idChars:
  "map toLowerCaseChar idChars = ''abcdefghijklmnopqrstuvwxyzabcdefghijklmnopqrstuvwxyz0123456789._''"
  by code_simp

lemma idChar_lower: "isIdChar c \<Longrightarrow> toLowerCaseChar c \<in> set lowerIdChars"
proof -
  assume "isIdChar c"
  then have "toLowerCaseChar c \<in> set (map toLowerCaseChar idChars)"
    by (simp add: isIdChar_def)
  then have "toLowerCaseChar c \<in> set ''abcdefghijklmnopqrstuvwxyzabcdefghijklmnopqrstuvwxyz0123456789._''"
    by (simp only: lower_idChars)
  moreover have "set ''abcdefghijklmnopqrstuvwxyzabcdefghijklmnopqrstuvwxyz0123456789._'' \<subseteq> set lowerIdChars"
    by (auto simp: lowerIdChars_def)
  ultimately show ?thesis by (rule rev_subsetD)
qed

lemma plausible_normalize:
  assumes "isPlausible u"
  shows "normalizeUsername u = toLowerCase u"
proof -
  have ne: "u \<noteq> []" and all: "\<forall>c\<in>set u. isIdChar c"
    using assms by (simp_all add: isPlausible_def list_all_iff)
  have "isIdChar (hd u)" "isIdChar (last u)" using ne all by simp_all
  then have "trim u = u" using trim_fixed [of u] idChar_not_special by blast
  moreover have "stripLeadingAt u = u"
    using ne \<open>isIdChar (hd u)\<close> idChar_not_special by (cases u) auto
  ultimately show ?thesis by (simp add: normalizeUsername_def)
qed

lemma plausible_lower: "isPlausible u \<Longrightarrow> isLowerIdentifier (normalizeUsername u)"
  by (simp add: plausible_normalize)
     (simp add: isPlausible_def isLowerIdentifier_def toLowerCase_def list_all_iff idChar_lower)

lemma uniqueSorted_Nil_iff:
  "(uniqueSorted cmp xs = []) = (\<forall>u\<in>set xs. normalizeUsername u = [])"
proof -
  have "(uniqueSorted cmp xs = []) = (set (uniqueSorted cmp xs) = {})" by simp
  then show ?thesis unfolding set_uniqueSorted by auto
qed

lemma uniqueSorted_plausible_Nil_iff:
  "(uniqueSorted cmp (filter isPlausible cs) = []) = (filter isPlausible cs = [])"
proof -
  have "\<And>u. isPlausible u \<Longrightarrow> normalizeUsername u \<noteq> []"
    using plausible_lower by (fastforce simp: isLowerIdentifier_def)
  then show ?thesis
    unfolding uniqueSorted_Nil_iff by (auto simp: filter_empty_conv)
qed

text \<open>
  C10. Every identifier the Markup Parser returns is a non-empty string of at most 30
  characters, each of them a lower-case letter, a digit, a dot or an underscore.
\<close>

theorem parseHtml_identifiers_lower:
  "list_all isLowerIdentifier (usernames (parseInstagramRelationshipHtml cmp anchorsOf htmlText))"
proof -
  have "\<forall>x\<in>set (uniqueSorted cmp (filter isPlausible (htmlCandidates anchorsOf htmlText))).
          isLowerIdentifier x"
    unfolding set_uniqueSorted using plausible_lower by auto
  then show ?thesis
    by (simp add: parseInstagramRelationshipHtml_def Let_def list_all_iff)
qed

lemma example_candidates:
  "pushCaptures (matchAll urlAt exampleMarkup) = [''Dave'']"
  "pushCaptures (matchAll atAt exampleMarkup) = [''erin'']"
  "pushCaptures (matchAll valueAt exampleMarkup) = [''Frank'']"
  by code_simp+

text \<open>
  C5. The Markup Parser returns kind unknown; its warnings are the notice of a markup
  import, followed by the advice to try the structured format exactly when no candidate
  passes the final filter. On the example text, when the structural pass finds no
  anchor and the collation is consistent and puts \<open>dave\<close> before \<open>erin\<close> before
  \<open>frank\<close>, the identifiers are these three in this order.
\<close>

theorem parseHtml_kind_warnings:
  "kind (parseInstagramRelationshipHtml cmp anchorsOf htmlText) = Unknown
   \<and> warnings (parseInstagramRelationshipHtml cmp anchorsOf htmlText) =
       (if filter isPlausible (htmlCandidates anchorsOf htmlText) = []
        then [msgHtmlImported, msgHtmlEmpty] else [msgHtmlImported])
   \<and> ((anchorsOf exampleMarkup = None \<or> anchorsOf exampleMarkup = Some [])
        \<and> consistentComparator cmp \<and> cmp ''dave'' ''erin'' < 0 \<and> cmp ''erin'' ''frank'' < 0
       \<longrightarrow> usernames (parseInstagramRelationshipHtml cmp anchorsOf exampleMarkup)
             = [''dave'', ''erin'', ''frank''])"
proof -
  have k: "kind (parseInstagramRelationshipHtml cmp anchorsOf htmlText) = Unknown"
    by (simp add: parseInstagramRelationshipHtml_def Let_def)
  have w: "warnings (parseInstagramRelationshipHtml cmp anchorsOf htmlText) =
       (if filter isPlausible (htmlCandidates anchorsOf htmlText) = []
        then [msgHtmlImported, msgHtmlEmpty] else [msgHtmlImported])"
    by (simp add: parseInstagramRelationshipHtml_def Let_def uniqueSorted_plausible_Nil_iff)
  have e: "usernames (parseInstagramRelationshipHtml cmp anchorsOf exampleMarkup)
             = [''dave'', ''erin'', ''frank'']"
    if a: "anchorsOf exampleMarkup = None \<or> anchorsOf exampleMarkup = Some []"
      and c1: "cmp ''dave'' ''erin'' < 0" and c2: "cmp ''erin'' ''frank'' < 0"
  proof -
    have "htmlCandidates anchorsOf exampleMarkup = [''Dave'', ''erin'', ''Frank'']"
      using a by (auto simp: htmlCandidates_def example_candidates)
    moreover have "filter isPlausible [''Dave'', ''erin'', ''Frank''] = [''Dave'', ''erin'', ''Frank'']"
      by (simp add: isPlausible_def isIdChar_def idChars_def)
    moreover have "foldl addNormalized [] [''Dave'', ''erin'', ''Frank''] = [''dave'', ''erin'', ''frank'']"
      by (simp add: addNormalized_def Set_add_def Set_has_def Let_def string_eval)
    moreover have "sortBy cmp [''dave'', ''erin'', ''frank''] = [''dave'', ''erin'', ''frank'']"
      using c1 c2 by (simp add: sortBy_def)
    ultimately show ?thesis
      by (simp add: parseInstagramRelationshipHtml_def Let_def uniqueSorted_def)
  qed
  show ?thesis using k w e by blast
qed

theorem parseHtml_kind_warnings_witness:
  "((\<lambda>_. None) exampleMarkup = (None :: anchor list option)
      \<or> (\<lambda>_. None) exampleMarkup = Some ([] :: anchor list))
   \<and> consistentComparator codeUnitCompare
   \<and> codeUnitCompare ''dave'' ''erin'' < 0 \<and> codeUnitCompare ''erin'' ''frank'' < 0
   \<and> usernames (parseInstagramRelationshipHtml codeUnitCompare (\<lambda>_. None) exampleMarkup)
        = [''dave'', ''erin'', ''frank'']"
proof -
  have c1: "codeUnitCompare ''dave'' ''erin'' < 0" by (simp add: codeUnitCompare_def)
  have c2: "codeUnitCompare ''erin'' ''frank'' < 0" by (simp add: codeUnitCompare_def)
  have a: "(\<lambda>_. None) exampleMarkup = (None :: anchor list option)
      \<or> (\<lambda>_. None) exampleMarkup = Some ([] :: anchor list)"
    by simp
  have "usernames (parseInstagramRelationshipHtml codeUnitCompare (\<lambda>_. None) exampleMarkup)
        = [''dave'', ''erin'', ''frank'']"
    using a c1 c2 consistent_codeUnitCompare
      parseHtml_kind_warnings [of codeUnitCompare "\<lambda>_. None" exampleMarkup]
    by blast
  then show ?thesis using a c1 c2 consistent_codeUnitCompare by blast
qed

section \<open>Properties of the Aggregator\<close>



























end
